theory Spec2Isabelle
  imports Complex_Main "HOL-Library.Word" "HOL-Library.Sublist" "HOL-Library.Char_ord"
    "HOL-Library.List_Lexorder" "HOL-Library.AList"
begin

section \<open>Go strings\<close>

text \<open>
  A Go string is a sequence of bytes, and so is \<^typ>\<open>string\<close>. The functions of package
  \<^verbatim>\<open>strings\<close> and \<^verbatim>\<open>path\<close> that \<^verbatim>\<open>internal/license/detect.go\<close> calls are
  written out here with the results the Go standard library documents for them.
\<close>

definition HasPrefix :: "string \<Rightarrow> string \<Rightarrow> bool" where
  "HasPrefix s p = (length p \<le> length s \<and> take (length p) s = p)"

text \<open>\<^verbatim>\<open>strings.Index\<close>: the index of the first instance of \<open>sep\<close> in \<open>s\<close>, or -1.\<close>

fun Index :: "string \<Rightarrow> string \<Rightarrow> int" where
  "Index [] sep = (if sep = [] then 0 else - 1)"
| "Index (c # cs) sep =
     (if HasPrefix (c # cs) sep then 0
      else (let i = Index cs sep in if i < 0 then - 1 else i + 1))"

definition Contains :: "string \<Rightarrow> string \<Rightarrow> bool" where
  "Contains s substr = (0 \<le> Index s substr)"

definition TrimPrefix :: "string \<Rightarrow> string \<Rightarrow> string" where
  "TrimPrefix s p = (if HasPrefix s p then drop (length p) s else s)"

text \<open>
  \<^verbatim>\<open>path.Base\<close>: the last element of the path, after trailing slashes are removed;
  \<^verbatim>\<open>"."\<close> for the empty path and \<^verbatim>\<open>"/"\<close> for a path of slashes only.
\<close>

fun stripTrailingSlashes :: "string \<Rightarrow> string" where
  "stripTrailingSlashes s =
     (if s \<noteq> [] \<and> last s = CHR ''/'' then stripTrailingSlashes (butlast s) else s)"

definition lastElement :: "string \<Rightarrow> string" where
  "lastElement s = rev (takeWhile (\<lambda>c. c \<noteq> CHR ''/'') (rev s))"

definition Base :: "string \<Rightarrow> string" where
  "Base p =
     (if p = [] then ''.''
      else (let p1 = lastElement (stripTrailingSlashes p)
            in if p1 = [] then ''/'' else p1))"

section \<open>The license scanner: \<^verbatim>\<open>internal/license/detect.go\<close>\<close>

definition licenseFileNames :: "string \<Rightarrow> bool" where
  "licenseFileNames n =
     (n \<in> set [''LICENSE'', ''LICENSE.md'', ''LICENSE.txt'',
               ''COPYING'', ''COPYING.md'', ''COPYING.txt''])"

text \<open>
  \<^verbatim>\<open>isVendoredFile\<close>: \<open>vendorOffset\<close> is the index just after the first \<^verbatim>\<open>vendor/\<close>
  directory prefix, and the file is vendored when a slash follows it.
\<close>

definition isVendoredFile :: "string \<Rightarrow> bool" where
  "isVendoredFile name =
     (if HasPrefix name ''vendor/''
      then Contains (drop (length ''vendor/'') name) ''/''
      else (let i = Index name ''/vendor/''
            in if 0 \<le> i then Contains (drop (nat (i + int (length ''/vendor/''))) name) ''/''
               else False))"

subsection \<open>Data\<close>

type_synonym bytes = "8 word list"

text \<open>
  \<^verbatim>\<open>licensecheck.Coverage\<close> and \<^verbatim>\<open>licensecheck.Match\<close>, with the fields that
  \<^verbatim>\<open>Detect\<close> reads. Both percentages are \<^verbatim>\<open>float64\<close> values, read here as the real
  numbers they denote; the only operation applied to them is the comparison \<^verbatim>\<open>>= 90\<close>,
  which is exact on floating-point numbers. (A NaN would fail both comparisons, as every
  number below 90 does.)
\<close>

record Match =
  Name :: string
  Percent :: real

record Coverage =
  Percent :: real
  Match :: "Match list"

record Metadata =
  Types :: "string list"
  FilePath :: string

text \<open>A nil \<^verbatim>\<open>Contents\<close> slice is \<open>None\<close>; a nil \<^verbatim>\<open>Types\<close> slice is the empty list.\<close>

record License =
  Metadata :: Metadata
  Contents :: "bytes option"

text \<open>
  What \<^verbatim>\<open>f.Open()\<close> followed by \<^verbatim>\<open>ioutil.ReadAll(rc)\<close> gives for an archive entry: the
  error of the first, the error of the second, or the bytes read.
\<close>

datatype opened = OpenFails string | ReadAllFails string | ReadsAll bytes

text \<open>A \<^verbatim>\<open>zip.File\<close>: the fields of its header that are read, and what opening it gives.\<close>

record File =
  Name :: string
  UncompressedSize64 :: "64 word"
  Open :: opened

definition classifyThreshold :: real where
  "classifyThreshold = 90"

definition coverageThreshold :: real where
  "coverageThreshold = 90"

definition maxLicenseSize :: "64 word" where
  "maxLicenseSize = 10000000"

subsection \<open>Classification of one candidate\<close>

text \<open>
  The map \<^verbatim>\<open>matchedTypes\<close> only ever holds the value \<^verbatim>\<open>true\<close>, so it is the list of
  its keys, without repetition. The loop over \<^verbatim>\<open>cov.Match\<close> adds the name of every match
  that reaches \<^verbatim>\<open>classifyThreshold\<close>; a name found twice is logged and stays once.
\<close>

fun matchedTypes :: "Match list \<Rightarrow> string list \<Rightarrow> string list" where
  "matchedTypes [] seen = seen"
| "matchedTypes (m # ms) seen =
     (if classifyThreshold \<le> Match.Percent m
      then matchedTypes ms (List.insert (Match.Name m) seen)
      else matchedTypes ms seen)"

text \<open>
  Lines 105 to 142 of \<^verbatim>\<open>Detect\<close>: the one record appended for a candidate whose contents
  were read. \<^verbatim>\<open>sort.Strings\<close> orders Go strings byte by byte, which is the order of
  \<^typ>\<open>string\<close>; Go ranges over the map in no fixed order, and sorting removes the
  difference (lemma \<open>sort_keys_any_order\<close> below).
\<close>

definition classify :: "(bytes \<Rightarrow> Coverage \<times> bool) \<Rightarrow> string \<Rightarrow> bytes \<Rightarrow> License" where
  "classify Cover filePath contents =
     (let (cov, ok) = Cover contents;
          unknown = \<lparr>Metadata = \<lparr>Types = [], FilePath = filePath\<rparr>, Contents = None\<rparr>
      in if ok \<and> coverageThreshold \<le> Coverage.Percent cov
         then (let typs = matchedTypes (Coverage.Match cov) []
               in if 0 < length typs
                  then \<lparr>Metadata = \<lparr>Types = sort typs, FilePath = filePath\<rparr>,
                        Contents = Some contents\<rparr>
                  else unknown)
         else unknown)"

subsection \<open>Detect\<close>

text \<open>
  Three functions that \<^verbatim>\<open>Detect\<close> calls are parameters of the model:
  \<^item> \<open>q\<close> is the formatting verb \<^verbatim>\<open>%q\<close> of package \<^verbatim>\<open>fmt\<close> on a string
    (\<^verbatim>\<open>strconv.Quote\<close>);
  \<^item> \<open>CheckFilePath\<close> is \<^verbatim>\<open>module.CheckFilePath\<close> of \<^verbatim>\<open>internal/thirdparty/module\<close>,
    giving \<open>None\<close> for a nil error and otherwise the text of the error;
  \<^item> \<open>Cover\<close> is \<^verbatim>\<open>licensecheck.Cover\<close> with the empty options.
\<close>

definition contentsPrefix :: "string \<Rightarrow> string" where
  "contentsPrefix contentsDir = (if contentsDir \<noteq> [] then contentsDir @ ''/'' else [])"

text \<open>
  The five messages that \<^verbatim>\<open>Detect\<close> builds with \<^verbatim>\<open>fmt.Errorf\<close>, in the order of the
  source. The verb \<^verbatim>\<open>%v\<close> prints an error as its text, \<^verbatim>\<open>%s\<close> a string as it is, and
  \<^verbatim>\<open>%d\<close> prints \<^verbatim>\<open>int(1e7)\<close> in decimal.
\<close>

definition errCheckFilePath :: "(string \<Rightarrow> string) \<Rightarrow> string \<Rightarrow> string \<Rightarrow> string" where
  "errCheckFilePath q name err = ''module.CheckFilePath('' @ q name @ ''): '' @ err"

definition errOutside :: "(string \<Rightarrow> string) \<Rightarrow> string \<Rightarrow> string \<Rightarrow> string" where
  "errOutside q name contentsDir =
     ''potential license file '' @ q name @ '' found outside of the expected path '' @ contentsDir"

definition errTooLarge :: "(string \<Rightarrow> string) \<Rightarrow> string \<Rightarrow> string" where
  "errTooLarge q name =
     ''potential license file '' @ q name @ '' exceeds maximum uncompressed size 10000000''"

definition errOpen :: "(string \<Rightarrow> string) \<Rightarrow> string \<Rightarrow> string \<Rightarrow> string" where
  "errOpen q name err = ''f.Open() for '' @ q name @ '': '' @ err"

definition errReadAll :: "(string \<Rightarrow> string) \<Rightarrow> string \<Rightarrow> string \<Rightarrow> string" where
  "errReadAll q name err = ''ioutil.ReadAll(rc) for '' @ q name @ '': '' @ err"

text \<open>
  The loop over \<^verbatim>\<open>r.File\<close>, with the slice \<^verbatim>\<open>licenses\<close> as accumulator. A \<^verbatim>\<open>return nil, err\<close>
  is \<open>Inl\<close> of the error's message.
\<close>

fun DetectLoop ::
  "(string \<Rightarrow> string) \<Rightarrow> (string \<Rightarrow> string option) \<Rightarrow> (bytes \<Rightarrow> Coverage \<times> bool) \<Rightarrow>
   string \<Rightarrow> File list \<Rightarrow> License list \<Rightarrow> string + License list" where
  "DetectLoop q CheckFilePath Cover contentsDir [] licenses = Inr licenses"
| "DetectLoop q CheckFilePath Cover contentsDir (f # fs) licenses =
     (if \<not> licenseFileNames (Base (Name f)) \<or> isVendoredFile (Name f)
      then DetectLoop q CheckFilePath Cover contentsDir fs licenses
      else case CheckFilePath (Name f) of
        Some err \<Rightarrow> Inl (errCheckFilePath q (Name f) err)
      | None \<Rightarrow>
         (let prefix = contentsPrefix contentsDir
          in if \<not> HasPrefix (Name f) prefix
             then Inl (errOutside q (Name f) contentsDir)
             else if maxLicenseSize < UncompressedSize64 f
             then Inl (errTooLarge q (Name f))
             else case Open f of
               OpenFails err \<Rightarrow> Inl (errOpen q (Name f) err)
             | ReadAllFails err \<Rightarrow> Inl (errReadAll q (Name f) err)
             | ReadsAll contents \<Rightarrow>
                 DetectLoop q CheckFilePath Cover contentsDir fs
                   (licenses @ [classify Cover (TrimPrefix (Name f) prefix) contents])))"

text \<open>
  Modelled from the spec: \<^verbatim>\<open>derrors.Add\<close> of \<^verbatim>\<open>internal/derrors\<close>, which is not among the
  sources. The specification has every error of a nested operation annotated with the
  operation's name and key identifiers; here the annotation is put in front of the message,
  and a nil error stays nil.
\<close>

definition Add :: "string \<Rightarrow> string \<Rightarrow> string" where
  "Add err context = context @ '': '' @ err"

definition Detect ::
  "(string \<Rightarrow> string) \<Rightarrow> (string \<Rightarrow> string option) \<Rightarrow> (bytes \<Rightarrow> Coverage \<times> bool) \<Rightarrow>
   string \<Rightarrow> File list \<Rightarrow> string + License list" where
  "Detect q CheckFilePath Cover contentsDir files =
     (case DetectLoop q CheckFilePath Cover contentsDir files [] of
        Inl err \<Rightarrow> Inl (Add err (''Detect('' @ q contentsDir @ '')''))
      | Inr licenses \<Rightarrow> Inr licenses)"


text \<open>
  What \<^verbatim>\<open>%q\<close> prints for a string of printable ASCII characters other than the double
  quote and the backslash: the string between double quotes. It stands for \<open>q\<close> where a
  concrete archive is evaluated.
\<close>

definition quotePlain :: "string \<Rightarrow> string" where
  "quotePlain s = CHR 0x22 # s @ [CHR 0x22]"

subsection \<open>The conditions of the loop, named\<close>

text \<open>
  The entries that the first test of the loop lets through (a recognized base name, not
  vendored), the three checks of lines 80 to 92, and whether the entry could be opened and
  read to its end.
\<close>

definition isCandidate :: "File \<Rightarrow> bool" where
  "isCandidate f = (licenseFileNames (Base (Name f)) \<and> \<not> isVendoredFile (Name f))"

definition passesValidation :: "(string \<Rightarrow> string option) \<Rightarrow> string \<Rightarrow> File \<Rightarrow> bool" where
  "passesValidation CheckFilePath contentsDir f =
     (CheckFilePath (Name f) = None \<and> HasPrefix (Name f) (contentsPrefix contentsDir)
      \<and> \<not> maxLicenseSize < UncompressedSize64 f)"

definition readable :: "File \<Rightarrow> bool" where
  "readable f = (case Open f of ReadsAll contents \<Rightarrow> True | _ \<Rightarrow> False)"

definition theContents :: "File \<Rightarrow> bytes" where
  "theContents f = (case Open f of ReadsAll contents \<Rightarrow> contents | _ \<Rightarrow> [])"

subsection \<open>The record the specification describes\<close>

text \<open>
  In the words of the specification: the type names of the matches with confidence at
  least 90, as a set; a Matched License (these names in lexicographic order, the contents
  attached) when the classifier reports a coverage of at least 90 and the set is not empty,
  and a Metadata-only License (the path alone) otherwise. \<open>classify\<close> above is the code;
  lemma \<open>classify_specLicense\<close> shows that the two agree.
\<close>

definition confidentTypes :: "Coverage \<Rightarrow> string set" where
  "confidentTypes cov =
     set (map Match.Name (filter (\<lambda>m. 90 \<le> Match.Percent m) (Coverage.Match cov)))"

definition specLicense :: "(bytes \<Rightarrow> Coverage \<times> bool) \<Rightarrow> string \<Rightarrow> bytes \<Rightarrow> License" where
  "specLicense Cover filePath contents =
     (let (cov, ok) = Cover contents
      in if ok \<and> 90 \<le> Coverage.Percent cov \<and> confidentTypes cov \<noteq> {}
         then \<lparr>Metadata = \<lparr>Types = sorted_list_of_set (confidentTypes cov), FilePath = filePath\<rparr>,
               Contents = Some contents\<rparr>
         else \<lparr>Metadata = \<lparr>Types = [], FilePath = filePath\<rparr>, Contents = None\<rparr>)"

subsection \<open>Paths as lists of elements\<close>

text \<open>
  The elements of a slash-separated path, as \<^verbatim>\<open>strings.Split(p, "/")\<close> gives them, and the
  specification's reading of a vendored file: some element is a directory named
  \<^verbatim>\<open>vendor\<close>, and the file lies at least one directory below it, so that at least two
  more elements follow.
\<close>

fun splitSlash :: "string \<Rightarrow> string list" where
  "splitSlash [] = [[]]"
| "splitSlash (c # cs) =
     (if c = CHR ''/'' then [] # splitSlash cs
      else (case splitSlash cs of [] \<Rightarrow> [[c]] | x # xs \<Rightarrow> (c # x) # xs))"

fun joinSlash :: "string list \<Rightarrow> string" where
  "joinSlash [] = []"
| "joinSlash [x] = x"
| "joinSlash (x # y # ys) = x @ CHR ''/'' # joinSlash (y # ys)"

fun belowVendorElems :: "string list \<Rightarrow> bool" where
  "belowVendorElems (x # d # f # rest) = (x = ''vendor'' \<or> belowVendorElems (d # f # rest))"
| "belowVendorElems _ = False"

definition belowVendor :: "string \<Rightarrow> bool" where
  "belowVendor p = belowVendorElems (splitSlash p)"

subsection \<open>An example archive\<close>

text \<open>
  A classifier that recognises one text (coverage 95, with matches for MIT at 91 and 99,
  Apache-2.0 at 96 and BSD-3-Clause at 50) and nothing else, and an archive with contents
  root \<^verbatim>\<open>mod@v1.0.0\<close>: a license at the root, a vendored license, a file that is no
  license, and a \<^verbatim>\<open>COPYING\<close> that the classifier does not recognise.
\<close>

definition exampleCover :: "bytes \<Rightarrow> Coverage \<times> bool" where
  "exampleCover b =
     (if b = [65, 112, 97]
      then (\<lparr>Coverage.Percent = 95,
             Match = [\<lparr>Match.Name = ''MIT'', Match.Percent = 91\<rparr>,
                      \<lparr>Match.Name = ''Apache-2.0'', Match.Percent = 96\<rparr>,
                      \<lparr>Match.Name = ''MIT'', Match.Percent = 99\<rparr>,
                      \<lparr>Match.Name = ''BSD-3-Clause'', Match.Percent = 50\<rparr>]\<rparr>, True)
      else (\<lparr>Coverage.Percent = 0, Match = []\<rparr>, False))"

definition exampleArchive :: "File list" where
  "exampleArchive =
     [\<lparr>File.Name = ''mod@v1.0.0/LICENSE'', UncompressedSize64 = 11358,
       Open = ReadsAll [65, 112, 97]\<rparr>,
      \<lparr>File.Name = ''mod@v1.0.0/vendor/libX/LICENSE'', UncompressedSize64 = 20000000,
       Open = OpenFails ''zip: unsupported compression algorithm''\<rparr>,
      \<lparr>File.Name = ''mod@v1.0.0/README.md'', UncompressedSize64 = 512,
       Open = ReadsAll [35]\<rparr>,
      \<lparr>File.Name = ''mod@v1.0.0/sub/COPYING'', UncompressedSize64 = 40,
       Open = ReadsAll [63]\<rparr>]"

text \<open>Entries that no archive of the module should hold, each a license by its name.\<close>

definition outsideEntry :: File where
  "outsideEntry = \<lparr>File.Name = ''other@v0.1.0/LICENSE'', UncompressedSize64 = 1071,
                    Open = ReadsAll [65, 112, 97]\<rparr>"

definition hugeEntry :: File where
  "hugeEntry = \<lparr>File.Name = ''mod@v1.0.0/COPYING'', UncompressedSize64 = 10000001,
                 Open = ReadsAll []\<rparr>"

definition unreadableEntry :: File where
  "unreadableEntry = \<lparr>File.Name = ''mod@v1.0.0/LICENSE.txt'', UncompressedSize64 = 1071,
                       Open = OpenFails ''zip: unsupported compression algorithm''\<rparr>"

text \<open>
  Two entries with a license name in and below a \<^verbatim>\<open>vendor\<close> directory: the first lies
  directly inside it, the second one level further down.
\<close>

definition vendorLicenseEntry :: File where
  "vendorLicenseEntry = \<lparr>File.Name = ''mod@v1.0.0/vendor/LICENSE'', UncompressedSize64 = 11358,
                          Open = ReadsAll [65, 112, 97]\<rparr>"

definition vendoredEntry :: File where
  "vendoredEntry = \<lparr>File.Name = ''mod@v1.0.0/vendor/libX/LICENSE'', UncompressedSize64 = 11358,
                     Open = ReadsAll [65, 112, 97]\<rparr>"

text \<open>
  An entry that is no license by its name (the case differs), lies outside the contents
  root, is too large and cannot be opened; and a path check that rejects its path alone.
\<close>

definition lowercaseEntry :: File where
  "lowercaseEntry = \<lparr>File.Name = ''elsewhere/license'', UncompressedSize64 = 20000000,
                      Open = OpenFails ''zip: unsupported compression algorithm''\<rparr>"

definition rejectLowercase :: "string \<Rightarrow> string option" where
  "rejectLowercase n = (if n = ''elsewhere/license'' then Some ''malformed file path'' else None)"

section \<open>The module store\<close>

text \<open>
  \<^verbatim>\<open>InsertModule\<close> and the read accessors are called by
  \<^verbatim>\<open>internal/postgres/insert_module_test.go\<close>, but their code is not among the sources.
  This section follows sections 3, 4.5 and 6 of the specification.
\<close>

datatype derror = DBModuleInsertInvalid | NotFound

datatype status = Ok | NotFoundStatus | Alternative | OtherStatus

record ModuleVersionState =
  status :: status
  alternative_module_path :: "string option"
  last_attempt_time :: nat

record Package =
  import_path :: string
  name :: string
  synopsis :: string
  doc_html :: string
  package_licenses :: "Metadata list"

record Directory =
  dir_path :: string
  directory_licenses :: "Metadata list"

text \<open>A commit time is a number of time units after the zero time, which is 0.\<close>

record Module =
  module_path :: string
  version :: string
  commit_time :: nat
  has_module_file :: bool
  packages :: "Package list"
  directories :: "Directory list"
  licenses :: "License list"

record ModuleRow =
  row_commit_time :: nat
  row_has_module_file :: bool
  sort_version :: string
  series_path :: string

record SearchDocument =
  doc_module_path :: string
  doc_version :: string
  doc_name :: string
  doc_synopsis :: string

text \<open>
  The tables of section 6, each an association list from its key to the row, or to the rows
  scoped to a (module path, version), and the search-document index keyed by package path.
\<close>

record DB =
  Modules :: "((string \<times> string) \<times> ModuleRow) list"
  Packages :: "((string \<times> string) \<times> Package list) list"
  Directories :: "((string \<times> string) \<times> Directory list) list"
  Licenses :: "((string \<times> string) \<times> License list) list"
  SearchDocuments :: "(string \<times> SearchDocument) list"
  ModuleVersionStates :: "((string \<times> string) \<times> ModuleVersionState) list"

definition sanitizePackage :: "(string \<Rightarrow> string) \<Rightarrow> Package \<Rightarrow> Package" where
  "sanitizePackage sanitize p = p\<lparr>synopsis := sanitize (synopsis p), doc_html := sanitize (doc_html p)\<rparr>"

text \<open>
  Modelled from the spec: the test of section 4.5 for "any other version of the same module
  path currently marked alternative" that "is judged newer by the Version Key Engine". The
  engine is the parameter \<open>versionKey\<close> (\<open>None\<close> for a malformed version), and keys are
  compared as strings, in lexicographic order.
\<close>

definition newerAlternative ::
  "(string \<Rightarrow> string option) \<Rightarrow> DB \<Rightarrow> string \<Rightarrow> string \<Rightarrow> string \<Rightarrow> bool" where
  "newerAlternative versionKey db path ver key =
     list_ex (\<lambda>((p, v), st). p = path \<and> v \<noteq> ver
                \<and> map_of (ModuleVersionStates db) (p, v) = Some st
                \<and> status st = Alternative
                \<and> (case versionKey v of None \<Rightarrow> False | Some key' \<Rightarrow> key < key'))
       (ModuleVersionStates db)"

text \<open>Modelled from the spec: publishing the packages of a module into the search index.\<close>

fun publish :: "Module \<Rightarrow> Package list \<Rightarrow> (string \<times> SearchDocument) list \<Rightarrow> (string \<times> SearchDocument) list" where
  "publish m [] docs = docs"
| "publish m (p # ps) docs =
     publish m ps
       (AList.update (import_path p)
          \<lparr>doc_module_path = module_path m, doc_version = version m,
           doc_name = name p, doc_synopsis = synopsis p\<rparr> docs)"

text \<open>
  Modelled from the spec: \<^verbatim>\<open>InsertModule\<close> (section 4.5), which is not among the sources.
  It validates the required fields, computes the version key and the series path, sanitizes
  the free text, and then in one transaction upserts the module row, replaces the package,
  directory and license rows of this (module path, version), publishes the packages into the
  search index unless a newer alternative version is recorded, and records the outcome in
  ModuleVersionState. A nil module is \<open>None\<close>; the result is the error, if any, and the
  store afterwards. The Version Key Engine, the series path, the Text Sanitizer and the
  clock are parameters.
\<close>

definition InsertModule ::
  "(string \<Rightarrow> string option) \<Rightarrow> (string \<Rightarrow> string) \<Rightarrow> (string \<Rightarrow> string) \<Rightarrow> nat \<Rightarrow>
   Module option \<Rightarrow> DB \<Rightarrow> derror option \<times> DB" where
  "InsertModule versionKey seriesPath sanitize now mo db =
     (case mo of
        None \<Rightarrow> (Some DBModuleInsertInvalid, db)
      | Some m \<Rightarrow>
          if module_path m = [] \<or> version m = [] \<or> commit_time m = 0
          then (Some DBModuleInsertInvalid, db)
          else case versionKey (version m) of
            None \<Rightarrow> (Some DBModuleInsertInvalid, db)
          | Some key \<Rightarrow>
              (let k = (module_path m, version m);
                   pkgs = map (sanitizePackage sanitize) (packages m)
               in (None,
                   db\<lparr>Modules := AList.update k
                         \<lparr>row_commit_time = commit_time m, row_has_module_file = has_module_file m,
                          sort_version = key, series_path = seriesPath (module_path m)\<rparr> (Modules db),
                      Packages := AList.update k pkgs (Packages db),
                      Directories := AList.update k (directories m) (Directories db),
                      Licenses := AList.update k (licenses m) (Licenses db),
                      SearchDocuments :=
                        (if newerAlternative versionKey db (module_path m) (version m) key
                         then SearchDocuments db
                         else publish m pkgs (SearchDocuments db)),
                      ModuleVersionStates := AList.update k
                         \<lparr>status = Ok, alternative_module_path = None, last_attempt_time = now\<rparr>
                         (ModuleVersionStates db)\<rparr>)))"

text \<open>Modelled from the spec: the read accessors of section 6.\<close>

definition GetModuleInfo :: "DB \<Rightarrow> string \<Rightarrow> string \<Rightarrow> derror + ModuleRow" where
  "GetModuleInfo db path ver =
     (case map_of (Modules db) (path, ver) of None \<Rightarrow> Inl NotFound | Some row \<Rightarrow> Inr row)"

definition GetPackage :: "DB \<Rightarrow> string \<Rightarrow> string \<Rightarrow> string \<Rightarrow> derror + Package" where
  "GetPackage db pkgPath path ver =
     (case map_of (Packages db) (path, ver) of
        None \<Rightarrow> Inl NotFound
      | Some ps \<Rightarrow> (case find (\<lambda>p. import_path p = pkgPath) ps of
                     None \<Rightarrow> Inl NotFound | Some p \<Rightarrow> Inr p))"

definition GetDirectory :: "DB \<Rightarrow> string \<Rightarrow> string \<Rightarrow> string \<Rightarrow> derror + Directory" where
  "GetDirectory db dirPath path ver =
     (case map_of (Directories db) (path, ver) of
        None \<Rightarrow> Inl NotFound
      | Some ds \<Rightarrow> (case find (\<lambda>d. dir_path d = dirPath) ds of
                     None \<Rightarrow> Inl NotFound | Some d \<Rightarrow> Inr d))"



subsection \<open>An example store\<close>

text \<open>
  The scenario of \<^verbatim>\<open>TestPostgres_NewerAlternative\<close>: the module path
  \<^verbatim>\<open>example.com/Mod\<close> is recorded at \<^verbatim>\<open>v1.2.0\<close> as an alternative of
  \<^verbatim>\<open>example.com/mod\<close>, and its version \<^verbatim>\<open>v1.0.0\<close>, with one package, is inserted. The
  version keys are given for the versions that occur; the key of \<^verbatim>\<open>v1.2.3-beta.4.a\<close> is
  the one \<^verbatim>\<open>TestPostgres_ReadAndWriteModuleOtherColumns\<close> expects.
\<close>

definition exampleVersionKey :: "string \<Rightarrow> string option" where
  "exampleVersionKey = map_of
     [(''v0.9.0'', ''0,9,0''), (''v1.0.0'', ''1,0,0''), (''v1.2.0'', ''1,2,0''),
      (''v1.2.3-beta.4.a'', ''1,2,3,~beta,4,~a'')]"

definition emptyDB :: DB where
  "emptyDB = \<lparr>Modules = [], Packages = [], Directories = [], Licenses = [],
              SearchDocuments = [], ModuleVersionStates = []\<rparr>"

definition alternativeDB :: DB where
  "alternativeDB = emptyDB\<lparr>ModuleVersionStates :=
     [((''example.com/Mod'', ''v1.2.0''),
       \<lparr>status = Alternative, alternative_module_path = Some ''example.com/mod'',
        last_attempt_time = 1\<rparr>)]\<rparr>"

definition exampleModule :: "string \<Rightarrow> Module" where
  "exampleModule ver =
     \<lparr>module_path = ''example.com/Mod'', version = ver, commit_time = 1573000000,
      has_module_file = True,
      packages = [\<lparr>import_path = ''example.com/Mod/p'', name = ''p'',
                   synopsis = ''This is a package synopsis'',
                   doc_html = ''This is the documentation HTML'', package_licenses = []\<rparr>],
      directories = [\<lparr>dir_path = ''example.com/Mod'', directory_licenses = []\<rparr>,
                     \<lparr>dir_path = ''example.com/Mod/p'', directory_licenses = []\<rparr>],
      licenses = []\<rparr>"

section \<open>Facts about the string functions\<close>

lemma HasPrefix_iff: "HasPrefix s p \<longleftrightarrow> (\<exists>zs. s = p @ zs)"
  unfolding HasPrefix_def
  by (metis append_eq_conv_conj append_take_drop_id length_append le_add1)

lemma Index_le_length: "Index s sep \<le> int (length s)"
  by (induction s) (auto simp: Let_def)

text \<open>A result that is not negative is the position of an instance of \<open>sep\<close>.\<close>

lemma Index_occurrence:
  "0 \<le> Index s sep \<Longrightarrow> \<exists>post. s = take (nat (Index s sep)) s @ sep @ post"
proof (induction s)
  case Nil
  then show ?case by (auto split: if_splits)
next
  case (Cons c cs)
  show ?case
  proof (cases "HasPrefix (c # cs) sep")
    case True
    then show ?thesis by (auto simp: HasPrefix_iff)
  next
    case False
    with Cons.prems have nn: "0 \<le> Index cs sep" and eq: "Index (c # cs) sep = Index cs sep + 1"
      by (auto simp: Let_def split: if_splits)
    from Cons.IH [OF nn] obtain post where "cs = take (nat (Index cs sep)) cs @ sep @ post" ..
    then have "c # cs = take (nat (Index cs sep + 1)) (c # cs) @ sep @ post"
      using nn by (simp add: nat_add_distrib)
    then show ?thesis unfolding eq ..
  qed
qed

text \<open>Where \<open>sep\<close> occurs, \<open>Index\<close> finds it, at that position or before.\<close>

lemma Index_first:
  "0 \<le> Index (pre @ sep @ post) sep \<and> Index (pre @ sep @ post) sep \<le> int (length pre)"
proof (induction pre)
  case Nil
  have "HasPrefix (sep @ post) sep" by (auto simp: HasPrefix_iff)
  then show ?case by (cases "sep @ post") (auto simp: HasPrefix_def)
next
  case (Cons c pre)
  then show ?case by (auto simp: Let_def)
qed

lemma Contains_iff: "Contains s sub \<longleftrightarrow> (\<exists>pre post. s = pre @ sub @ post)"
  unfolding Contains_def using Index_occurrence Index_first by metis

lemma Contains_char: "Contains s [c] \<longleftrightarrow> c \<in> set s"
proof
  assume "Contains s [c]"
  then show "c \<in> set s" by (auto simp: Contains_iff)
next
  assume "c \<in> set s"
  then obtain pre post where "s = pre @ c # post" by (auto dest: split_list)
  then have "s = pre @ [c] @ post" by simp
  then show "Contains s [c]" unfolding Contains_iff by blast
qed

lemma drop_within: "n \<le> length xs \<Longrightarrow> drop n (xs @ ys) = drop n xs @ ys"
  by simp

section \<open>Vendored files\<close>

lemma isVendoredFile_prefix:
  assumes "HasPrefix p ''vendor/''"
  shows "isVendoredFile p \<longleftrightarrow> (\<exists>d rest. p = ''vendor/'' @ d @ ''/'' @ rest)"
proof -
  from assms obtain zs where zs: "p = ''vendor/'' @ zs" by (auto simp: HasPrefix_iff)
  have "isVendoredFile p \<longleftrightarrow> Contains zs ''/''"
    using assms by (simp add: isVendoredFile_def zs)
  also have "\<dots> \<longleftrightarrow> (\<exists>d rest. zs = d @ ''/'' @ rest)" by (rule Contains_iff)
  finally show ?thesis by (simp add: zs)
qed

lemma isVendoredFile_inner:
  assumes "\<not> HasPrefix p ''vendor/''"
  shows "isVendoredFile p \<longleftrightarrow> (\<exists>pre d rest. p = pre @ ''/vendor/'' @ d @ ''/'' @ rest)"
    (is "?L \<longleftrightarrow> ?R")
proof
  let ?i = "Index p ''/vendor/''"
  assume ?L
  with assms have nn: "0 \<le> ?i" and c: "Contains (drop (nat (?i + 8)) p) ''/''"
    by (auto simp: isVendoredFile_def Let_def split: if_splits)
  from Index_occurrence [OF nn] obtain post
    where n: "p = take (nat ?i) p @ ''/vendor/'' @ post" ..
  have len: "length (take (nat ?i) p) = nat ?i"
    using Index_le_length [of p "''/vendor/''"] nn by simp
  have "drop (nat (?i + 8)) p = drop (nat ?i + 8) (take (nat ?i) p @ ''/vendor/'' @ post)"
    using n nn by (simp add: nat_add_distrib)
  also have "\<dots> = post" using len by simp
  finally have "Contains post ''/''" using c by simp
  then obtain d rest where "post = d @ ''/'' @ rest" by (auto simp: Contains_iff)
  with n have "p = take (nat ?i) p @ ''/vendor/'' @ d @ ''/'' @ rest" by simp
  then show ?R by blast
next
  let ?i = "Index p ''/vendor/''"
  assume ?R
  then obtain pre d rest where n: "p = pre @ ''/vendor/'' @ d @ ''/'' @ rest" by blast
  from Index_first [of pre "''/vendor/''" "d @ ''/'' @ rest"]
  have nn: "0 \<le> ?i" and le: "?i \<le> int (length pre)" by (simp_all add: n)
  have n': "p = (pre @ ''/vendor/'' @ d) @ ''/'' @ rest" by (simp add: n)
  have "nat (?i + 8) \<le> length (pre @ ''/vendor/'' @ d)" using nn le by simp
  then have "drop (nat (?i + 8)) ((pre @ ''/vendor/'' @ d) @ ''/'' @ rest)
      = drop (nat (?i + 8)) (pre @ ''/vendor/'' @ d) @ ''/'' @ rest"
    by (rule drop_within)
  then have "CHR ''/'' \<in> set (drop (nat (?i + 8)) p)" using n' by simp
  then have "Contains (drop (nat (?i + 8)) p) ''/''" by (simp add: Contains_char)
  then show ?L using assms nn by (simp add: isVendoredFile_def Let_def)
qed

text \<open>
  The file is vendored exactly when its path has the form \<^verbatim>\<open>[.../]vendor/d/rest\<close>: a whole
  element \<^verbatim>\<open>vendor\<close>, and a further slash somewhere after it.
\<close>

lemma isVendoredFile_decomposition:
  "isVendoredFile p \<longleftrightarrow>
     (\<exists>pre d rest. p = pre @ ''vendor/'' @ d @ ''/'' @ rest \<and> (pre = [] \<or> last pre = CHR ''/''))"
  (is "?L \<longleftrightarrow> ?R")
proof (cases "HasPrefix p ''vendor/''")
  case True
  show ?thesis
  proof
    assume ?L
    then obtain d rest where "p = [] @ ''vendor/'' @ d @ ''/'' @ rest"
      using isVendoredFile_prefix [OF True] by auto
    then show ?R by blast
  next
    assume ?R
    then obtain pre d rest where n: "p = pre @ ''vendor/'' @ d @ ''/'' @ rest" by blast
    from True obtain zs where zs: "p = ''vendor/'' @ zs" by (auto simp: HasPrefix_iff)
    have "7 \<le> length (pre @ ''vendor/'')" by simp
    then have "drop 7 ((pre @ ''vendor/'') @ d @ ''/'' @ rest) = drop 7 (pre @ ''vendor/'') @ d @ ''/'' @ rest"
      by (rule drop_within)
    moreover have "drop 7 p = zs" by (simp add: zs)
    ultimately have "zs = drop 7 (pre @ ''vendor/'') @ d @ ''/'' @ rest" using n by simp
    then have "p = ''vendor/'' @ (drop 7 (pre @ ''vendor/'') @ d) @ ''/'' @ rest"
      using zs by simp
    then show ?L using isVendoredFile_prefix [OF True] by blast
  qed
next
  case False
  show ?thesis
  proof
    assume ?L
    then obtain pre d rest where "p = pre @ ''/vendor/'' @ d @ ''/'' @ rest"
      using isVendoredFile_inner [OF False] by auto
    then have "p = (pre @ ''/'') @ ''vendor/'' @ d @ ''/'' @ rest \<and> last (pre @ ''/'') = CHR ''/''"
      by simp
    then show ?R by blast
  next
    assume ?R
    then obtain pre d rest where n: "p = pre @ ''vendor/'' @ d @ ''/'' @ rest"
      and p: "pre = [] \<or> last pre = CHR ''/''" by blast
    have "pre \<noteq> []" using False n by (auto simp: HasPrefix_iff)
    with p have "pre = butlast pre @ ''/''" by (metis append_butlast_last_id)
    with n have "p = butlast pre @ ''/vendor/'' @ d @ ''/'' @ rest"
      by (metis append.assoc append_Cons append_Nil)
    then show ?L using isVendoredFile_inner [OF False] by blast
  qed
qed

subsection \<open>The same, on the elements of the path\<close>

lemma splitSlash_not_Nil: "splitSlash s \<noteq> []"
  by (induction s) (auto split: list.splits)

lemma splitSlash_append: "splitSlash (a @ CHR ''/'' # b) = splitSlash a @ splitSlash b"
proof (induction a)
  case Nil
  show ?case by simp
next
  case (Cons c a)
  obtain x xs where "splitSlash a = x # xs"
    using splitSlash_not_Nil [of a] by (cases "splitSlash a") auto
  with Cons show ?case by simp
qed

lemma joinSlash_splitSlash: "joinSlash (splitSlash s) = s"
proof (induction s)
  case Nil
  show ?case by simp
next
  case (Cons c s)
  obtain x xs where e: "splitSlash s = x # xs"
    using splitSlash_not_Nil [of s] by (cases "splitSlash s") auto
  show ?case
  proof (cases "c = CHR ''/''")
    case True
    with Cons e show ?thesis by simp
  next
    case False
    with Cons e show ?thesis by (cases xs) auto
  qed
qed

lemma joinSlash_append:
  "joinSlash (xs @ y # ys) = (if xs = [] then [] else joinSlash xs @ ''/'') @ joinSlash (y # ys)"
  by (induction xs rule: joinSlash.induct) auto

lemma belowVendorElems_iff:
  "belowVendorElems xs \<longleftrightarrow> (\<exists>pre d f rest. xs = pre @ ''vendor'' # d # f # rest)"
proof (induction xs rule: belowVendorElems.induct)
  case (1 x d f rest)
  show ?case
  proof
    assume "belowVendorElems (x # d # f # rest)"
    then consider "x = ''vendor''" | "belowVendorElems (d # f # rest)" by auto
    then show "\<exists>pre d' f' rest'. x # d # f # rest = pre @ ''vendor'' # d' # f' # rest'"
    proof cases
      case 1
      then have "x # d # f # rest = [] @ ''vendor'' # d # f # rest" by simp
      then show ?thesis by blast
    next
      case 2
      with "1.IH" obtain pre d' f' rest' where "d # f # rest = pre @ ''vendor'' # d' # f' # rest'"
        by blast
      then have "x # d # f # rest = (x # pre) @ ''vendor'' # d' # f' # rest'" by simp
      then show ?thesis by blast
    qed
  next
    assume "\<exists>pre d' f' rest'. x # d # f # rest = pre @ ''vendor'' # d' # f' # rest'"
    then obtain pre d' f' rest' where e: "x # d # f # rest = pre @ ''vendor'' # d' # f' # rest'"
      by blast
    show "belowVendorElems (x # d # f # rest)"
    proof (cases pre)
      case Nil
      with e show ?thesis by simp
    next
      case (Cons a pre')
      with e have "d # f # rest = pre' @ ''vendor'' # d' # f' # rest'" by simp
      then have "belowVendorElems (d # f # rest)" using "1.IH" by blast
      then show ?thesis by simp
    qed
  qed
qed (auto simp: append_eq_Cons_conv)


lemma splitSlash_vendor_dir:
  "\<exists>d1 f r. splitSlash (''vendor/'' @ d @ ''/'' @ rest) = ''vendor'' # d1 # f # r"
proof -
  obtain d1 ds where d: "splitSlash d = d1 # ds"
    using splitSlash_not_Nil [of d] by (cases "splitSlash d") auto
  obtain r1 rs where r: "splitSlash rest = r1 # rs"
    using splitSlash_not_Nil [of rest] by (cases "splitSlash rest") auto
  have "''vendor/'' @ d @ ''/'' @ rest = ''vendor'' @ CHR ''/'' # (d @ CHR ''/'' # rest)" by simp
  then have "splitSlash (''vendor/'' @ d @ ''/'' @ rest)
      = splitSlash ''vendor'' @ splitSlash d @ splitSlash rest"
    by (simp only: splitSlash_append)
  also have "\<dots> = ''vendor'' # d1 # (ds @ r1 # rs)" by (simp add: d r)
  finally show ?thesis by (cases ds) auto
qed

lemma decomposition_belowVendor:
  "(\<exists>pre d rest. p = pre @ ''vendor/'' @ d @ ''/'' @ rest \<and> (pre = [] \<or> last pre = CHR ''/''))
   \<longleftrightarrow> belowVendor p" (is "?L \<longleftrightarrow> ?R")
proof
  assume ?L
  then obtain pre d rest where p: "p = pre @ ''vendor/'' @ d @ ''/'' @ rest"
    and pre: "pre = [] \<or> last pre = CHR ''/''" by blast
  obtain d1 f r where x: "splitSlash (''vendor/'' @ d @ ''/'' @ rest) = ''vendor'' # d1 # f # r"
    using splitSlash_vendor_dir by blast
  show ?R
  proof (cases "pre = []")
    case True
    with p x have "splitSlash p = [] @ ''vendor'' # d1 # f # r" by simp
    then show ?thesis unfolding belowVendor_def belowVendorElems_iff by blast
  next
    case False
    with pre have "pre = butlast pre @ ''/''" by (metis append_butlast_last_id)
    then have "p = butlast pre @ CHR ''/'' # (''vendor/'' @ d @ ''/'' @ rest)"
      using p by (metis append.assoc append_Cons append_Nil)
    then have "splitSlash p = splitSlash (butlast pre) @ ''vendor'' # d1 # f # r"
      using x by (simp only: splitSlash_append)
    then show ?thesis unfolding belowVendor_def belowVendorElems_iff by blast
  qed
next
  assume ?R
  then obtain pre d f rest where e: "splitSlash p = pre @ ''vendor'' # d # f # rest"
    unfolding belowVendor_def belowVendorElems_iff by blast
  define P where "P = (if pre = [] then [] else joinSlash pre @ ''/'')"
  have "p = joinSlash (pre @ ''vendor'' # d # f # rest)"
    using joinSlash_splitSlash [of p] e by simp
  also have "\<dots> = P @ joinSlash (''vendor'' # d # f # rest)"
    unfolding P_def by (rule joinSlash_append)
  also have "\<dots> = P @ ''vendor/'' @ d @ ''/'' @ joinSlash (f # rest)" by simp
  finally have "p = P @ ''vendor/'' @ d @ ''/'' @ joinSlash (f # rest)" .
  moreover have "P = [] \<or> last P = CHR ''/''" by (simp add: P_def)
  ultimately show ?L by blast
qed


section \<open>The loop of Detect\<close>

lemma DetectLoop_skip:
  "\<not> isCandidate f \<Longrightarrow>
   DetectLoop q chk Cover cd (pre @ f # post) acc = DetectLoop q chk Cover cd (pre @ post) acc"
  by (induction pre arbitrary: acc)
     (auto simp: isCandidate_def Let_def split: option.splits opened.splits)

lemma Detect_skip:
  "\<not> isCandidate f \<Longrightarrow>
   Detect q chk Cover cd (pre @ f # post) = Detect q chk Cover cd (pre @ post)"
  by (simp add: Detect_def DetectLoop_skip)

section \<open>The loop of Detect, continued\<close>

lemma DetectLoop_skip_head:
  "\<not> isCandidate f \<Longrightarrow>
   DetectLoop q chk Cover cd (f # fs) acc = DetectLoop q chk Cover cd fs acc"
  by (auto simp: isCandidate_def)

lemma DetectLoop_cong_tail:
  assumes "\<And>acc. DetectLoop q chk Cover cd fs acc = DetectLoop q chk Cover cd gs acc"
  shows "DetectLoop q chk Cover cd (f # fs) acc = DetectLoop q chk Cover cd (f # gs) acc"
  by (simp add: assms Let_def split: option.splits opened.splits)

lemma DetectLoop_filter:
  "DetectLoop q chk Cover cd files acc = DetectLoop q chk Cover cd (filter isCandidate files) acc"
proof (induction files arbitrary: acc)
  case Nil
  show ?case by simp
next
  case (Cons f fs)
  show ?case
  proof (cases "isCandidate f")
    case True
    then have "filter isCandidate (f # fs) = f # filter isCandidate fs" by simp
    moreover have "DetectLoop q chk Cover cd (f # fs) acc
        = DetectLoop q chk Cover cd (f # filter isCandidate fs) acc"
      by (rule DetectLoop_cong_tail) (rule Cons.IH)
    ultimately show ?thesis by (simp only:)
  next
    case False
    then have "filter isCandidate (f # fs) = filter isCandidate fs" by simp
    moreover have "DetectLoop q chk Cover cd (f # fs) acc = DetectLoop q chk Cover cd fs acc"
      using False by (rule DetectLoop_skip_head)
    ultimately show ?thesis using Cons.IH by (simp only:)
  qed
qed

lemma DetectLoop_ok_step:
  "isCandidate f \<Longrightarrow> passesValidation chk cd f \<Longrightarrow> readable f \<Longrightarrow>
   DetectLoop q chk Cover cd (f # fs) acc =
   DetectLoop q chk Cover cd fs
     (acc @ [classify Cover (TrimPrefix (File.Name f) (contentsPrefix cd)) (theContents f)])"
  by (auto simp: isCandidate_def passesValidation_def readable_def theContents_def Let_def
      split: option.splits opened.splits)

lemma errors_name_the_path:
  "sublist (q n) (errCheckFilePath q n err)"
  "sublist (q n) (errOutside q n cd)"
  "sublist (q n) (errTooLarge q n)"
  "sublist (q n) (errOpen q n err)"
  "sublist (q n) (errReadAll q n err)"
  unfolding errCheckFilePath_def errOutside_def errTooLarge_def errOpen_def errReadAll_def
  by (rule sublist_appendI)+

lemma DetectLoop_fail_step:
  assumes "isCandidate f" and "\<not> (passesValidation chk cd f \<and> readable f)"
  shows "\<exists>msg. DetectLoop q chk Cover cd (f # fs) acc = Inl msg \<and> sublist (q (File.Name f)) msg"
  using assms
  by (auto simp: isCandidate_def passesValidation_def readable_def Let_def errors_name_the_path
      split: option.splits opened.splits)

lemma DetectLoop_success:
  "(\<forall>f\<in>set files. isCandidate f \<longrightarrow> passesValidation chk cd f \<and> readable f) \<Longrightarrow>
   DetectLoop q chk Cover cd files acc =
   Inr (acc @ map (\<lambda>f. classify Cover (TrimPrefix (File.Name f) (contentsPrefix cd)) (theContents f))
                (filter isCandidate files))"
proof (induction files arbitrary: acc)
  case Nil
  then show ?case by simp
next
  case (Cons f fs)
  show ?case
  proof (cases "isCandidate f")
    case True
    with Cons.prems have "passesValidation chk cd f" "readable f" by auto
    from DetectLoop_ok_step [OF True this] Cons.IH Cons.prems True
    show ?thesis by simp
  next
    case False
    from DetectLoop_skip [OF False, of q chk Cover cd "[]"] Cons.IH Cons.prems False
    show ?thesis by simp
  qed
qed

lemma DetectLoop_failure:
  "\<exists>f\<in>set files. isCandidate f \<and> \<not> (passesValidation chk cd f \<and> readable f) \<Longrightarrow>
   \<exists>msg pre g post. DetectLoop q chk Cover cd files acc = Inl msg \<and> files = pre @ g # post
     \<and> (\<forall>h\<in>set pre. isCandidate h \<longrightarrow> passesValidation chk cd h \<and> readable h)
     \<and> isCandidate g \<and> \<not> (passesValidation chk cd g \<and> readable g)
     \<and> sublist (q (File.Name g)) msg"
proof (induction files arbitrary: acc)
  case Nil
  then show ?case by simp
next
  case (Cons f fs)
  show ?case
  proof (cases "isCandidate f \<and> \<not> (passesValidation chk cd f \<and> readable f)")
    case True
    then obtain msg where "DetectLoop q chk Cover cd (f # fs) acc = Inl msg"
      and "sublist (q (File.Name f)) msg"
      using DetectLoop_fail_step by blast
    with True have "DetectLoop q chk Cover cd (f # fs) acc = Inl msg \<and> f # fs = [] @ f # fs
     \<and> (\<forall>h\<in>set []. isCandidate h \<longrightarrow> passesValidation chk cd h \<and> readable h)
     \<and> isCandidate f \<and> \<not> (passesValidation chk cd f \<and> readable f)
     \<and> sublist (q (File.Name f)) msg" by simp
    then show ?thesis by blast
  next
    case False
    with Cons.prems
    have ex: "\<exists>f\<in>set fs. isCandidate f \<and> \<not> (passesValidation chk cd f \<and> readable f)" by auto
    obtain acc' where step: "DetectLoop q chk Cover cd (f # fs) acc = DetectLoop q chk Cover cd fs acc'"
    proof (cases "isCandidate f")
      case True
      with False have "passesValidation chk cd f" "readable f" by auto
      from DetectLoop_ok_step [OF True this] that show ?thesis by blast
    next
      case c: False
      from DetectLoop_skip [OF c, of q chk Cover cd "[]"] that show ?thesis by simp 
    qed
    from Cons.IH [OF ex, of acc'] obtain msg pre g post where
      r: "DetectLoop q chk Cover cd fs acc' = Inl msg" "fs = pre @ g # post"
        "\<forall>h\<in>set pre. isCandidate h \<longrightarrow> passesValidation chk cd h \<and> readable h"
        "isCandidate g" "\<not> (passesValidation chk cd g \<and> readable g)"
        "sublist (q (File.Name g)) msg" by blast
    from r False step
    have "DetectLoop q chk Cover cd (f # fs) acc = Inl msg \<and> f # fs = (f # pre) @ g # post
     \<and> (\<forall>h\<in>set (f # pre). isCandidate h \<longrightarrow> passesValidation chk cd h \<and> readable h)
     \<and> isCandidate g \<and> \<not> (passesValidation chk cd g \<and> readable g)
     \<and> sublist (q (File.Name g)) msg" by auto
    then show ?thesis by blast
  qed
qed

lemma sublist_Add:
  assumes "sublist xs err"
  shows "sublist xs (Add err context)"
proof -
  from assms obtain a b where "err = a @ xs @ b" unfolding sublist_def by blast
  then have "Add err context = (context @ '': '' @ a) @ xs @ b" by (simp add: Add_def)
  then show ?thesis unfolding sublist_def by blast
qed

lemma Detect_Inl_iff:
  "(\<exists>msg. Detect q chk Cover cd files = Inl msg) \<longleftrightarrow>
   (\<exists>f\<in>set files. isCandidate f \<and> \<not> (passesValidation chk cd f \<and> readable f))"
proof
  assume l: "\<exists>msg. Detect q chk Cover cd files = Inl msg"
  have "\<not> (\<forall>f\<in>set files. isCandidate f \<longrightarrow> passesValidation chk cd f \<and> readable f)"
  proof
    assume "\<forall>f\<in>set files. isCandidate f \<longrightarrow> passesValidation chk cd f \<and> readable f"
    from DetectLoop_success [OF this, of q Cover "[]"] l show False by (simp add: Detect_def)
  qed
  then show "\<exists>f\<in>set files. isCandidate f \<and> \<not> (passesValidation chk cd f \<and> readable f)" by blast
next
  assume "\<exists>f\<in>set files. isCandidate f \<and> \<not> (passesValidation chk cd f \<and> readable f)"
  from DetectLoop_failure [OF this, of q Cover "[]"]
  show "\<exists>msg. Detect q chk Cover cd files = Inl msg" by (auto simp: Detect_def)
qed

section \<open>Classification\<close>

lemma set_matchedTypes:
  "set (matchedTypes ms seen) = set seen \<union> Match.Name ` {m \<in> set ms. 90 \<le> Match.Percent m}"
  by (induction ms arbitrary: seen) (auto simp: classifyThreshold_def)

lemma distinct_matchedTypes: "distinct seen \<Longrightarrow> distinct (matchedTypes ms seen)"
  by (induction ms arbitrary: seen) auto

lemma sort_keys_any_order:
  assumes "distinct ks" and "set ks = set (matchedTypes ms [])"
  shows "sort ks = sort (matchedTypes ms [])"
proof (rule sorted_distinct_set_unique)
  show "distinct (sort ks)" using assms(1) by simp
  show "distinct (sort (matchedTypes ms []))" by (simp add: distinct_matchedTypes)
  show "set (sort ks) = set (sort (matchedTypes ms []))" using assms(2) by simp
qed simp_all

lemma sort_matchedTypes:
  "sort (matchedTypes (Coverage.Match cov) []) = sorted_list_of_set (confidentTypes cov)"
proof -
  have "confidentTypes cov = set (matchedTypes (Coverage.Match cov) [])"
    by (simp add: set_matchedTypes confidentTypes_def)
  then show ?thesis
    by (simp add: sorted_list_of_set_sort_remdups distinct_remdups_id distinct_matchedTypes)
qed

lemma classify_specLicense: "classify Cover filePath contents = specLicense Cover filePath contents"
proof -
  obtain cov ok where c: "Cover contents = (cov, ok)" by (cases "Cover contents")
  have e: "confidentTypes cov = set (matchedTypes (Coverage.Match cov) [])"
    by (simp add: set_matchedTypes confidentTypes_def)
  show ?thesis
    by (simp add: classify_def specLicense_def c Let_def coverageThreshold_def sort_matchedTypes e)
qed


section \<open>The claims about Detect\<close>

text \<open>
  C5. For every path \<open>p\<close> of an archive entry, \<^verbatim>\<open>isVendoredFile\<close> holds if and only if \<open>p\<close>
  lies at least one path level below a directory named \<^verbatim>\<open>vendor\<close>: on the elements of the
  path, an element \<^verbatim>\<open>vendor\<close> with at least two elements after it; on the string, a whole
  element \<^verbatim>\<open>vendor/\<close> followed by a segment that contains a further slash. So
  \<^verbatim>\<open>vendor/LICENSE\<close>, directly inside the directory, is not vendored, and
  \<^verbatim>\<open>vendor/foo/LICENSE\<close> is. The scanner excludes exactly these entries as vendored. An entry
  below a \<^verbatim>\<open>vendor\<close> directory is left out: the result of \<^verbatim>\<open>Detect\<close> is the same without
  it, wherever it stands in the archive. An entry with a license name that is not below a
  \<^verbatim>\<open>vendor\<close> directory is not left out: alone in an archive it gives an error or a record,
  never the empty result; there is an archive whose result changes with it; and whenever
  \<^verbatim>\<open>Detect\<close> returns records, the record of the entry is among them.
\<close>

theorem isVendoredFile_below_vendor:
  "(isVendoredFile p \<longleftrightarrow> belowVendor p)
   \<and> (isVendoredFile p \<longleftrightarrow>
        (\<exists>pre d rest. p = pre @ ''vendor/'' @ d @ ''/'' @ rest \<and> (pre = [] \<or> last pre = CHR ''/'')))
   \<and> \<not> isVendoredFile ''vendor/LICENSE'' \<and> isVendoredFile ''vendor/foo/LICENSE''
   \<and> (isVendoredFile (File.Name f) \<longrightarrow>
        Detect q chk Cover cd (fs @ f # gs) = Detect q chk Cover cd (fs @ gs))
   \<and> (licenseFileNames (Base (File.Name f)) \<longrightarrow>
        (Detect q chk Cover cd [f] = Inr [] \<longleftrightarrow> belowVendor (File.Name f)))
   \<and> (licenseFileNames (Base (File.Name f)) \<longrightarrow>
        ((\<forall>hs ks. Detect q chk Cover cd (hs @ f # ks) = Detect q chk Cover cd (hs @ ks))
         \<longleftrightarrow> belowVendor (File.Name f)))
   \<and> (licenseFileNames (Base (File.Name f)) \<and> \<not> belowVendor (File.Name f)
        \<and> Detect q chk Cover cd (fs @ f # gs) = Inr ls \<longrightarrow>
        specLicense Cover (TrimPrefix (File.Name f) (contentsPrefix cd)) (theContents f) \<in> set ls)"
proof -
  have a: "\<And>n. isVendoredFile n \<longleftrightarrow> belowVendor n"
    using isVendoredFile_decomposition decomposition_belowVendor by simp
  have b: "\<not> isVendoredFile ''vendor/LICENSE''" by code_simp
  have c: "isVendoredFile ''vendor/foo/LICENSE''" by code_simp
  have d: "\<And>hs ks. isVendoredFile (File.Name f) \<Longrightarrow>
        Detect q chk Cover cd (hs @ f # ks) = Detect q chk Cover cd (hs @ ks)"
    by (simp add: Detect_skip isCandidate_def)
  have nil: "Detect q chk Cover cd [] = Inr []" by (simp add: Detect_def)
  have kept: "Detect q chk Cover cd [f] \<noteq> Inr []"
    if l: "licenseFileNames (Base (File.Name f))" and nb: "\<not> belowVendor (File.Name f)"
  proof (cases "passesValidation chk cd f \<and> readable f")
    case True
    from l nb have cand: "isCandidate f" by (simp add: isCandidate_def a)
    with True have "\<forall>g\<in>set [f]. isCandidate g \<longrightarrow> passesValidation chk cd g \<and> readable g"
      by simp
    from DetectLoop_success [OF this, of q Cover "[]"] cand
    show ?thesis by (simp add: Detect_def)
  next
    case False
    from l nb have "isCandidate f" by (simp add: isCandidate_def a)
    with False
    have "\<exists>g\<in>set [f]. isCandidate g \<and> \<not> (passesValidation chk cd g \<and> readable g)" by simp
    then have "\<exists>msg. Detect q chk Cover cd [f] = Inl msg" by (simp only: Detect_Inl_iff)
    then show ?thesis by auto
  qed
  have e: "licenseFileNames (Base (File.Name f)) \<longrightarrow>
        (Detect q chk Cover cd [f] = Inr [] \<longleftrightarrow> belowVendor (File.Name f))"
  proof (intro impI iffI)
    assume "licenseFileNames (Base (File.Name f))" "Detect q chk Cover cd [f] = Inr []"
    with kept show "belowVendor (File.Name f)" by blast
  next
    assume "belowVendor (File.Name f)"
    then have "isVendoredFile (File.Name f)" by (simp add: a)
    from d [OF this, of "[]" "[]"] nil show "Detect q chk Cover cd [f] = Inr []" by simp
  qed
  have g: "licenseFileNames (Base (File.Name f)) \<longrightarrow>
        ((\<forall>hs ks. Detect q chk Cover cd (hs @ f # ks) = Detect q chk Cover cd (hs @ ks))
         \<longleftrightarrow> belowVendor (File.Name f))"
  proof (intro impI iffI)
    assume l: "licenseFileNames (Base (File.Name f))"
      and "\<forall>hs ks. Detect q chk Cover cd (hs @ f # ks) = Detect q chk Cover cd (hs @ ks)"
    then have "Detect q chk Cover cd ([] @ f # []) = Detect q chk Cover cd ([] @ [])" by blast
    with nil have "Detect q chk Cover cd [f] = Inr []" by simp
    with kept l show "belowVendor (File.Name f)" by blast
  next
    assume "belowVendor (File.Name f)"
    then have "isVendoredFile (File.Name f)" by (simp add: a)
    with d show "\<forall>hs ks. Detect q chk Cover cd (hs @ f # ks) = Detect q chk Cover cd (hs @ ks)"
      by blast
  qed
  have h: "licenseFileNames (Base (File.Name f)) \<and> \<not> belowVendor (File.Name f)
        \<and> Detect q chk Cover cd (fs @ f # gs) = Inr ls \<longrightarrow>
        specLicense Cover (TrimPrefix (File.Name f) (contentsPrefix cd)) (theContents f) \<in> set ls"
  proof (intro impI, elim conjE)
    assume l: "licenseFileNames (Base (File.Name f))" and nb: "\<not> belowVendor (File.Name f)"
      and r: "Detect q chk Cover cd (fs @ f # gs) = Inr ls"
    from l nb have cand: "isCandidate f" by (simp add: isCandidate_def a)
    from r have "\<not> (\<exists>msg. Detect q chk Cover cd (fs @ f # gs) = Inl msg)" by simp
    then have ok: "\<forall>g\<in>set (fs @ f # gs). isCandidate g \<longrightarrow> passesValidation chk cd g \<and> readable g"
      unfolding Detect_Inl_iff by blast
    from DetectLoop_success [OF ok, of q Cover "[]"] r
    have "ls = map (\<lambda>f. classify Cover (TrimPrefix (File.Name f) (contentsPrefix cd)) (theContents f))
                (filter isCandidate (fs @ f # gs))"
      by (simp add: Detect_def)
    with cand show "specLicense Cover (TrimPrefix (File.Name f) (contentsPrefix cd)) (theContents f)
        \<in> set ls"
      by (simp add: classify_specLicense)
  qed
  from a [of p] b c d [of fs gs] e g h isVendoredFile_decomposition [of p] show ?thesis
    by (intro conjI) (assumption | blast)+
qed

theorem isVendoredFile_below_vendor_witness:
  "\<not> isVendoredFile ''mod@v1.0.0/vendor/LICENSE''
   \<and> \<not> belowVendor ''mod@v1.0.0/vendor/LICENSE''
   \<and> isVendoredFile ''mod@v1.0.0/vendor/libX/LICENSE''
   \<and> belowVendor ''mod@v1.0.0/vendor/libX/LICENSE''
   \<and> Detect quotePlain (\<lambda>_. None) exampleCover ''mod@v1.0.0'' [vendoredEntry] = Inr []
   \<and> Detect quotePlain (\<lambda>_. None) exampleCover ''mod@v1.0.0'' [vendorLicenseEntry]
       = Inr [\<lparr>Metadata = \<lparr>Types = [''Apache-2.0'', ''MIT''], FilePath = ''vendor/LICENSE''\<rparr>,
               Contents = Some [65, 112, 97]\<rparr>]
   \<and> Detect quotePlain (\<lambda>_. None) exampleCover ''mod@v1.0.0'' [vendorLicenseEntry] \<noteq> Inr []
   \<and> Detect quotePlain (\<lambda>_. None) exampleCover ''mod@v1.0.0''
        ([hd exampleArchive] @ vendoredEntry # [vendorLicenseEntry])
       = Detect quotePlain (\<lambda>_. None) exampleCover ''mod@v1.0.0''
           ([hd exampleArchive] @ [vendorLicenseEntry])
   \<and> Detect quotePlain (\<lambda>_. None) exampleCover ''mod@v1.0.0''
        ([hd exampleArchive] @ [vendorLicenseEntry])
       = Inr [\<lparr>Metadata = \<lparr>Types = [''Apache-2.0'', ''MIT''], FilePath = ''LICENSE''\<rparr>,
               Contents = Some [65, 112, 97]\<rparr>,
              \<lparr>Metadata = \<lparr>Types = [''Apache-2.0'', ''MIT''], FilePath = ''vendor/LICENSE''\<rparr>,
               Contents = Some [65, 112, 97]\<rparr>]"
proof -
  have n1: "File.Name vendoredEntry = ''mod@v1.0.0/vendor/libX/LICENSE''"
    by (simp add: vendoredEntry_def)
  have n2: "File.Name vendorLicenseEntry = ''mod@v1.0.0/vendor/LICENSE''"
    by (simp add: vendorLicenseEntry_def)
  have v1: "isVendoredFile ''mod@v1.0.0/vendor/libX/LICENSE''" by code_simp
  have v2: "\<not> isVendoredFile ''mod@v1.0.0/vendor/LICENSE''" by code_simp
  have l1: "licenseFileNames (Base (File.Name vendoredEntry))" by code_simp
  have l2: "licenseFileNames (Base (File.Name vendorLicenseEntry))" by code_simp
  note T1 = isVendoredFile_below_vendor [where p = "''mod@v1.0.0/vendor/libX/LICENSE''"
      and f = vendoredEntry and q = quotePlain and chk = "\<lambda>_. None" and Cover = exampleCover
      and cd = "''mod@v1.0.0''" and fs = "[hd exampleArchive]" and gs = "[vendorLicenseEntry]"]
  note T2 = isVendoredFile_below_vendor [where p = "''mod@v1.0.0/vendor/LICENSE''"
      and f = vendorLicenseEntry and q = quotePlain and chk = "\<lambda>_. None" and Cover = exampleCover
      and cd = "''mod@v1.0.0''"]
  from T1 [THEN conjunct1] v1 have b1: "belowVendor ''mod@v1.0.0/vendor/libX/LICENSE''"
    by (rule iffD1)
  have b2: "\<not> belowVendor ''mod@v1.0.0/vendor/LICENSE''"
  proof
    assume "belowVendor ''mod@v1.0.0/vendor/LICENSE''"
    with T2 [THEN conjunct1] have "isVendoredFile ''mod@v1.0.0/vendor/LICENSE''" by (rule iffD2)
    with v2 show False ..
  qed
  note skip = T1 [THEN conjunct2, THEN conjunct2, THEN conjunct2, THEN conjunct2, THEN conjunct1]
  note alone1 = T1 [THEN conjunct2, THEN conjunct2, THEN conjunct2, THEN conjunct2,
      THEN conjunct2, THEN conjunct1, THEN mp, OF l1]
  note alone2 = T2 [THEN conjunct2, THEN conjunct2, THEN conjunct2, THEN conjunct2,
      THEN conjunct2, THEN conjunct1, THEN mp, OF l2]
  from b1 have b1': "belowVendor (File.Name vendoredEntry)" unfolding n1 .
  from b2 have b2': "\<not> belowVendor (File.Name vendorLicenseEntry)" unfolding n2 .
  from v1 have v1': "isVendoredFile (File.Name vendoredEntry)" unfolding n1 .
  from alone1 b1'
  have d1: "Detect quotePlain (\<lambda>_. None) exampleCover ''mod@v1.0.0'' [vendoredEntry] = Inr []"
    by (rule iffD2)
  have d2: "Detect quotePlain (\<lambda>_. None) exampleCover ''mod@v1.0.0'' [vendorLicenseEntry] \<noteq> Inr []"
  proof
    assume "Detect quotePlain (\<lambda>_. None) exampleCover ''mod@v1.0.0'' [vendorLicenseEntry] = Inr []"
    with alone2 have "belowVendor (File.Name vendorLicenseEntry)" by (rule iffD1)
    with b2' show False ..
  qed
  from skip v1' have s: "Detect quotePlain (\<lambda>_. None) exampleCover ''mod@v1.0.0''
        ([hd exampleArchive] @ vendoredEntry # [vendorLicenseEntry])
       = Detect quotePlain (\<lambda>_. None) exampleCover ''mod@v1.0.0''
           ([hd exampleArchive] @ [vendorLicenseEntry])"
    by (rule mp)
  have e1: "Detect quotePlain (\<lambda>_. None) exampleCover ''mod@v1.0.0'' [vendorLicenseEntry]
       = Inr [\<lparr>Metadata = \<lparr>Types = [''Apache-2.0'', ''MIT''], FilePath = ''vendor/LICENSE''\<rparr>,
               Contents = Some [65, 112, 97]\<rparr>]"
    by code_simp
  have e2: "Detect quotePlain (\<lambda>_. None) exampleCover ''mod@v1.0.0''
        ([hd exampleArchive] @ [vendorLicenseEntry])
       = Inr [\<lparr>Metadata = \<lparr>Types = [''Apache-2.0'', ''MIT''], FilePath = ''LICENSE''\<rparr>,
               Contents = Some [65, 112, 97]\<rparr>,
              \<lparr>Metadata = \<lparr>Types = [''Apache-2.0'', ''MIT''], FilePath = ''vendor/LICENSE''\<rparr>,
               Contents = Some [65, 112, 97]\<rparr>]"
    by code_simp
  from v2 b2 v1 b1 d1 e1 d2 s e2 show ?thesis by (intro conjI)
qed

text \<open>
  C10. An entry whose base name is not one of \<^verbatim>\<open>LICENSE\<close>, \<^verbatim>\<open>LICENSE.md\<close>,
  \<^verbatim>\<open>LICENSE.txt\<close>, \<^verbatim>\<open>COPYING\<close>, \<^verbatim>\<open>COPYING.md\<close>, \<^verbatim>\<open>COPYING.txt\<close> (compared as they
  are, so case matters), or that is vendored, is skipped before any check: whatever its path,
  its size and its contents, the result of \<^verbatim>\<open>Detect\<close> is the same as without the entry. So
  \<^verbatim>\<open>Detect\<close> on an archive is \<^verbatim>\<open>Detect\<close> on its candidates alone; an archive without
  candidates gives the empty result and no error; and an error always comes from a candidate
  that fails a check or cannot be read.
\<close>

theorem Detect_ignores_other_entries:
  "(\<not> licenseFileNames (Base (File.Name f)) \<or> isVendoredFile (File.Name f) \<longrightarrow>
      Detect q chk Cover cd (fs @ f # gs) = Detect q chk Cover cd (fs @ gs))
   \<and> Detect q chk Cover cd files = Detect q chk Cover cd (filter isCandidate files)
   \<and> ((\<forall>g\<in>set files. \<not> licenseFileNames (Base (File.Name g)) \<or> isVendoredFile (File.Name g))
        \<longrightarrow> Detect q chk Cover cd files = Inr [])
   \<and> (Detect q chk Cover cd files = Inl msg \<longrightarrow>
        (\<exists>g\<in>set files. isCandidate g \<and> \<not> (passesValidation chk cd g \<and> readable g)))
   \<and> (licenseFileNames n \<longleftrightarrow> n \<in> {''LICENSE'', ''LICENSE.md'', ''LICENSE.txt'',
                                     ''COPYING'', ''COPYING.md'', ''COPYING.txt''})"
proof -
  have a: "\<not> licenseFileNames (Base (File.Name f)) \<or> isVendoredFile (File.Name f) \<longrightarrow>
      Detect q chk Cover cd (fs @ f # gs) = Detect q chk Cover cd (fs @ gs)"
    by (simp add: Detect_skip isCandidate_def)
  have b: "Detect q chk Cover cd files = Detect q chk Cover cd (filter isCandidate files)"
    using DetectLoop_filter [of q chk Cover cd files "[]"] by (simp add: Detect_def)
  have c: "(\<forall>g\<in>set files. \<not> licenseFileNames (Base (File.Name g)) \<or> isVendoredFile (File.Name g))
        \<longrightarrow> Detect q chk Cover cd files = Inr []"
  proof
    assume "\<forall>g\<in>set files. \<not> licenseFileNames (Base (File.Name g)) \<or> isVendoredFile (File.Name g)"
    then have "filter isCandidate files = []" by (auto simp: isCandidate_def filter_empty_conv)
    with b show "Detect q chk Cover cd files = Inr []" by (simp add: Detect_def)
  qed
  have d: "Detect q chk Cover cd files = Inl msg \<longrightarrow>
        (\<exists>g\<in>set files. isCandidate g \<and> \<not> (passesValidation chk cd g \<and> readable g))"
    using Detect_Inl_iff [of q chk Cover cd files] by blast
  have e: "licenseFileNames n \<longleftrightarrow> n \<in> {''LICENSE'', ''LICENSE.md'', ''LICENSE.txt'',
                                     ''COPYING'', ''COPYING.md'', ''COPYING.txt''}"
    by (simp add: licenseFileNames_def)
  from a b c d e show ?thesis by blast
qed

theorem Detect_ignores_other_entries_witness:
  "\<not> licenseFileNames (Base ''elsewhere/license'')
   \<and> rejectLowercase (File.Name lowercaseEntry) = Some ''malformed file path''
   \<and> \<not> HasPrefix (File.Name lowercaseEntry) (contentsPrefix ''mod@v1.0.0'')
   \<and> maxLicenseSize < UncompressedSize64 lowercaseEntry
   \<and> Detect quotePlain rejectLowercase exampleCover ''mod@v1.0.0''
        ([hd exampleArchive] @ lowercaseEntry # tl exampleArchive)
     = Detect quotePlain rejectLowercase exampleCover ''mod@v1.0.0''
         ([hd exampleArchive] @ tl exampleArchive)
   \<and> Detect quotePlain rejectLowercase exampleCover ''mod@v1.0.0''
        ([hd exampleArchive] @ lowercaseEntry # tl exampleArchive)
     = Inr [\<lparr>Metadata = \<lparr>Types = [''Apache-2.0'', ''MIT''], FilePath = ''LICENSE''\<rparr>,
             Contents = Some [65, 112, 97]\<rparr>,
            \<lparr>Metadata = \<lparr>Types = [], FilePath = ''sub/COPYING''\<rparr>, Contents = None\<rparr>]
   \<and> Detect quotePlain rejectLowercase exampleCover ''mod@v1.0.0''
        [lowercaseEntry, exampleArchive ! 1, exampleArchive ! 2] = Inr []"
proof -
  have b: "\<not> licenseFileNames (Base ''elsewhere/license'')" by code_simp
  have n: "File.Name lowercaseEntry = ''elsewhere/license''" by (simp add: lowercaseEntry_def)
  have c1: "rejectLowercase (File.Name lowercaseEntry) = Some ''malformed file path''"
    by code_simp
  have c2: "\<not> HasPrefix (File.Name lowercaseEntry) (contentsPrefix ''mod@v1.0.0'')" by code_simp
  have c3: "maxLicenseSize < UncompressedSize64 lowercaseEntry" by code_simp
  from b have h: "\<not> licenseFileNames (Base (File.Name lowercaseEntry))
      \<or> isVendoredFile (File.Name lowercaseEntry)"
    unfolding n ..
  have a: "\<forall>g\<in>set [lowercaseEntry, exampleArchive ! 1, exampleArchive ! 2].
      \<not> licenseFileNames (Base (File.Name g)) \<or> isVendoredFile (File.Name g)"
    by code_simp
  note T = Detect_ignores_other_entries [where f = lowercaseEntry and q = quotePlain
      and chk = rejectLowercase and Cover = exampleCover and cd = "''mod@v1.0.0''"
      and fs = "[hd exampleArchive]" and gs = "tl exampleArchive"
      and files = "[lowercaseEntry, exampleArchive ! 1, exampleArchive ! 2]"]
  from T [THEN conjunct1] h
  have s: "Detect quotePlain rejectLowercase exampleCover ''mod@v1.0.0''
        ([hd exampleArchive] @ lowercaseEntry # tl exampleArchive)
     = Detect quotePlain rejectLowercase exampleCover ''mod@v1.0.0''
         ([hd exampleArchive] @ tl exampleArchive)"
    by (rule mp)
  from T [THEN conjunct2, THEN conjunct2, THEN conjunct1] a
  have e: "Detect quotePlain rejectLowercase exampleCover ''mod@v1.0.0''
        [lowercaseEntry, exampleArchive ! 1, exampleArchive ! 2] = Inr []"
    by (rule mp)
  have r: "Detect quotePlain rejectLowercase exampleCover ''mod@v1.0.0''
         ([hd exampleArchive] @ tl exampleArchive)
     = Inr [\<lparr>Metadata = \<lparr>Types = [''Apache-2.0'', ''MIT''], FilePath = ''LICENSE''\<rparr>,
             Contents = Some [65, 112, 97]\<rparr>,
            \<lparr>Metadata = \<lparr>Types = [], FilePath = ''sub/COPYING''\<rparr>, Contents = None\<rparr>]"
    by code_simp
  from s r have r': "Detect quotePlain rejectLowercase exampleCover ''mod@v1.0.0''
        ([hd exampleArchive] @ lowercaseEntry # tl exampleArchive)
     = Inr [\<lparr>Metadata = \<lparr>Types = [''Apache-2.0'', ''MIT''], FilePath = ''LICENSE''\<rparr>,
             Contents = Some [65, 112, 97]\<rparr>,
            \<lparr>Metadata = \<lparr>Types = [], FilePath = ''sub/COPYING''\<rparr>, Contents = None\<rparr>]"
    by (rule trans)
  from b c1 c2 c3 s r' e show ?thesis by (intro conjI)
qed

text \<open>
  C1, as amended. \<^verbatim>\<open>Detect\<close> returns without error exactly when every entry that survives the
  name and vendor filtering passes the three checks and can be opened and read; and then its
  result holds exactly one License record for each of these entries, in archive order. The
  record is the one the specification describes: when the classifier reports a coverage of
  at least 90 and at least one match has a confidence of at least 90, a Matched License whose
  Types are the names of the confident matches, without repetition and in lexicographic
  order, with the file's contents attached; otherwise a Metadata-only License with the file
  path, no types and no contents. The file path is the entry's name without the prefix of
  the contents root.
\<close>

theorem Detect_one_license_per_candidate:
  "Detect q chk Cover cd files = Inr ls \<longleftrightarrow>
     (\<forall>f\<in>set files. isCandidate f \<longrightarrow> passesValidation chk cd f \<and> readable f)
     \<and> ls = map (\<lambda>f. specLicense Cover (TrimPrefix (File.Name f) (contentsPrefix cd)) (theContents f))
              (filter isCandidate files)"
  (is "?L \<longleftrightarrow> ?A \<and> ?B")
proof
  assume l: ?L
  then have "\<not> (\<exists>msg. Detect q chk Cover cd files = Inl msg)" by simp
  then have a: ?A unfolding Detect_Inl_iff by blast
  from DetectLoop_success [OF a, of q Cover "[]"] l
  have ?B by (simp add: Detect_def classify_specLicense)
  with a show "?A \<and> ?B" ..
next
  assume "?A \<and> ?B"
  then have a: ?A and b: ?B by blast+
  from DetectLoop_success [OF a, of q Cover "[]"] b
  show ?L by (simp add: Detect_def classify_specLicense)
qed

theorem Detect_one_license_per_candidate_witness:
  "Detect quotePlain (\<lambda>_. None) exampleCover ''mod@v1.0.0'' exampleArchive
     = Inr [\<lparr>Metadata = \<lparr>Types = [''Apache-2.0'', ''MIT''], FilePath = ''LICENSE''\<rparr>,
             Contents = Some [65, 112, 97]\<rparr>,
            \<lparr>Metadata = \<lparr>Types = [], FilePath = ''sub/COPYING''\<rparr>, Contents = None\<rparr>]"
proof -
  have h: "\<forall>f\<in>set exampleArchive.
      isCandidate f \<longrightarrow> passesValidation (\<lambda>_. None) ''mod@v1.0.0'' f \<and> readable f"
    by code_simp
  have m: "[\<lparr>Metadata = \<lparr>Types = [''Apache-2.0'', ''MIT''], FilePath = ''LICENSE''\<rparr>,
               Contents = Some [65, 112, 97]\<rparr>,
              \<lparr>Metadata = \<lparr>Types = [], FilePath = ''sub/COPYING''\<rparr>, Contents = None\<rparr>]
     = map (\<lambda>f. specLicense exampleCover (TrimPrefix (File.Name f) (contentsPrefix ''mod@v1.0.0''))
                  (theContents f))
         (filter isCandidate exampleArchive)"
    by code_simp
  from h m have "(\<forall>f\<in>set exampleArchive.
      isCandidate f \<longrightarrow> passesValidation (\<lambda>_. None) ''mod@v1.0.0'' f \<and> readable f)
    \<and> [\<lparr>Metadata = \<lparr>Types = [''Apache-2.0'', ''MIT''], FilePath = ''LICENSE''\<rparr>,
               Contents = Some [65, 112, 97]\<rparr>,
              \<lparr>Metadata = \<lparr>Types = [], FilePath = ''sub/COPYING''\<rparr>, Contents = None\<rparr>]
     = map (\<lambda>f. specLicense exampleCover (TrimPrefix (File.Name f) (contentsPrefix ''mod@v1.0.0''))
                  (theContents f))
         (filter isCandidate exampleArchive)" ..
  then show ?thesis
    by (rule iffD2 [OF Detect_one_license_per_candidate])
qed

text \<open>
  C1 as first stated gives every candidate that passes validation a record of its own. It
  does not hold in an archive where another candidate fails: the root \<^verbatim>\<open>LICENSE\<close> of the
  example archive passes the three checks and can be read, but with an oversized
  \<^verbatim>\<open>COPYING\<close> added at the end \<^verbatim>\<open>Detect\<close> returns the size error and no record at all.
\<close>

theorem Detect_valid_candidate_dropped_counterexample:
  "isCandidate (hd exampleArchive)
   \<and> passesValidation (\<lambda>_. None) ''mod@v1.0.0'' (hd exampleArchive)
   \<and> readable (hd exampleArchive)
   \<and> Detect quotePlain (\<lambda>_. None) exampleCover ''mod@v1.0.0'' (exampleArchive @ [hugeEntry])
       = Inl (Add (errTooLarge quotePlain ''mod@v1.0.0/COPYING'')
                (''Detect('' @ quotePlain ''mod@v1.0.0'' @ '')''))"
  by code_simp

text \<open>
  C4, as amended. If any license-named entry that is not vendored fails the file-path check,
  lies outside the contents root or declares an uncompressed size above 10000000 bytes, then
  \<^verbatim>\<open>Detect\<close> returns an error and no License record. The message of the error names, quoted
  by \<^verbatim>\<open>%q\<close>, the first such entry in archive order at which the scan fails: every candidate
  before it passed the three checks and was read, and it fails a check or cannot be opened or
  read.
\<close>

theorem Detect_fails_on_invalid_candidate:
  assumes "\<exists>f\<in>set files. isCandidate f \<and> \<not> passesValidation chk cd f"
  shows "\<exists>msg pre g post. Detect q chk Cover cd files = Inl msg \<and> files = pre @ g # post
     \<and> (\<forall>h\<in>set pre. isCandidate h \<longrightarrow> passesValidation chk cd h \<and> readable h)
     \<and> isCandidate g \<and> \<not> (passesValidation chk cd g \<and> readable g)
     \<and> sublist (q (File.Name g)) msg"
proof -
  from assms
  have "\<exists>f\<in>set files. isCandidate f \<and> \<not> (passesValidation chk cd f \<and> readable f)" by blast
  from DetectLoop_failure [OF this, of q Cover "[]"] obtain msg pre g post where
    r: "DetectLoop q chk Cover cd files [] = Inl msg" "files = pre @ g # post"
       "\<forall>h\<in>set pre. isCandidate h \<longrightarrow> passesValidation chk cd h \<and> readable h"
       "isCandidate g" "\<not> (passesValidation chk cd g \<and> readable g)"
       "sublist (q (File.Name g)) msg" by blast
  let ?m = "Add msg (''Detect('' @ q cd @ '')'')"
  from r have "Detect q chk Cover cd files = Inl ?m \<and> files = pre @ g # post
     \<and> (\<forall>h\<in>set pre. isCandidate h \<longrightarrow> passesValidation chk cd h \<and> readable h)
     \<and> isCandidate g \<and> \<not> (passesValidation chk cd g \<and> readable g)
     \<and> sublist (q (File.Name g)) ?m"
    by (simp add: Detect_def sublist_Add)
  then show ?thesis by blast
qed

theorem Detect_fails_on_invalid_candidate_witness:
  "isCandidate outsideEntry
   \<and> \<not> HasPrefix (File.Name outsideEntry) (contentsPrefix ''mod@v1.0.0'')
   \<and> Detect quotePlain (\<lambda>_. None) exampleCover ''mod@v1.0.0''
        (exampleArchive @ [outsideEntry, hugeEntry])
       = Inl (Add (errOutside quotePlain ''other@v0.1.0/LICENSE'' ''mod@v1.0.0'')
                (''Detect('' @ quotePlain ''mod@v1.0.0'' @ '')''))
   \<and> (\<exists>msg g. Detect quotePlain (\<lambda>_. None) exampleCover ''mod@v1.0.0''
                  (exampleArchive @ [outsideEntry, hugeEntry]) = Inl msg
         \<and> isCandidate g \<and> sublist (quotePlain (File.Name g)) msg)"
proof -
  have h: "\<exists>f\<in>set (exampleArchive @ [outsideEntry, hugeEntry]).
      isCandidate f \<and> \<not> passesValidation (\<lambda>_. None) ''mod@v1.0.0'' f"
    by code_simp
  have a: "isCandidate outsideEntry" by code_simp
  have b: "\<not> HasPrefix (File.Name outsideEntry) (contentsPrefix ''mod@v1.0.0'')" by code_simp
  have e: "Detect quotePlain (\<lambda>_. None) exampleCover ''mod@v1.0.0''
        (exampleArchive @ [outsideEntry, hugeEntry])
       = Inl (Add (errOutside quotePlain ''other@v0.1.0/LICENSE'' ''mod@v1.0.0'')
                (''Detect('' @ quotePlain ''mod@v1.0.0'' @ '')''))"
    by code_simp
  from Detect_fails_on_invalid_candidate [OF h, of quotePlain exampleCover]
  obtain msg g where
    "Detect quotePlain (\<lambda>_. None) exampleCover ''mod@v1.0.0''
       (exampleArchive @ [outsideEntry, hugeEntry]) = Inl msg
     \<and> isCandidate g \<and> sublist (quotePlain (File.Name g)) msg"
    by (elim exE conjE) (rule that, intro conjI)
  then have "\<exists>msg g. Detect quotePlain (\<lambda>_. None) exampleCover ''mod@v1.0.0''
                  (exampleArchive @ [outsideEntry, hugeEntry]) = Inl msg
         \<and> isCandidate g \<and> sublist (quotePlain (File.Name g)) msg"
    by (intro exI)
  with a b e show ?thesis by (intro conjI)
qed

text \<open>
  C4 as first stated has the message name the offending path. It does not when a candidate
  before the offending one cannot be opened: here \<^verbatim>\<open>LICENSE.txt\<close> passes the three checks
  and fails to open, the oversized \<^verbatim>\<open>COPYING\<close> after it is never reached, and the message
  names \<^verbatim>\<open>LICENSE.txt\<close> and not \<^verbatim>\<open>COPYING\<close>.
\<close>

theorem Detect_error_names_other_path_counterexample:
  "isCandidate hugeEntry
   \<and> \<not> passesValidation (\<lambda>_. None) ''mod@v1.0.0'' hugeEntry
   \<and> isCandidate unreadableEntry
   \<and> passesValidation (\<lambda>_. None) ''mod@v1.0.0'' unreadableEntry
   \<and> Detect quotePlain (\<lambda>_. None) exampleCover ''mod@v1.0.0'' [unreadableEntry, hugeEntry]
       = Inl (Add (errOpen quotePlain ''mod@v1.0.0/LICENSE.txt''
                     ''zip: unsupported compression algorithm'')
                (''Detect('' @ quotePlain ''mod@v1.0.0'' @ '')''))
   \<and> \<not> sublist (File.Name hugeEntry)
         (Add (errOpen quotePlain ''mod@v1.0.0/LICENSE.txt''
                 ''zip: unsupported compression algorithm'')
            (''Detect('' @ quotePlain ''mod@v1.0.0'' @ '')''))"
  by code_simp


section \<open>The module store: insertion\<close>

lemma InsertModule_Some_None:
  assumes "InsertModule vk sp san now (Some m) db = (None, db')"
  obtains key where "module_path m \<noteq> []" "version m \<noteq> []" "commit_time m \<noteq> 0"
    "vk (version m) = Some key"
    "db' = db\<lparr>Modules := AList.update (module_path m, version m)
                 \<lparr>row_commit_time = commit_time m, row_has_module_file = has_module_file m,
                  sort_version = key, series_path = sp (module_path m)\<rparr> (Modules db),
              Packages := AList.update (module_path m, version m)
                 (map (sanitizePackage san) (packages m)) (Packages db),
              Directories := AList.update (module_path m, version m) (directories m) (Directories db),
              Licenses := AList.update (module_path m, version m) (licenses m) (Licenses db),
              SearchDocuments :=
                (if newerAlternative vk db (module_path m) (version m) key
                 then SearchDocuments db
                 else publish m (map (sanitizePackage san) (packages m)) (SearchDocuments db)),
              ModuleVersionStates := AList.update (module_path m, version m)
                 \<lparr>status = Ok, alternative_module_path = None, last_attempt_time = now\<rparr>
                 (ModuleVersionStates db)\<rparr>"
  using assms
  by (auto simp: InsertModule_def Let_def split: if_splits option.splits)

lemma InsertModule_valid:
  assumes "module_path m \<noteq> []" "version m \<noteq> []" "commit_time m \<noteq> 0"
    "vk (version m) = Some key"
  shows "InsertModule vk sp san now (Some m) db =
    (None, db\<lparr>Modules := AList.update (module_path m, version m)
                 \<lparr>row_commit_time = commit_time m, row_has_module_file = has_module_file m,
                  sort_version = key, series_path = sp (module_path m)\<rparr> (Modules db),
              Packages := AList.update (module_path m, version m)
                 (map (sanitizePackage san) (packages m)) (Packages db),
              Directories := AList.update (module_path m, version m) (directories m) (Directories db),
              Licenses := AList.update (module_path m, version m) (licenses m) (Licenses db),
              SearchDocuments :=
                (if newerAlternative vk db (module_path m) (version m) key
                 then SearchDocuments db
                 else publish m (map (sanitizePackage san) (packages m)) (SearchDocuments db)),
              ModuleVersionStates := AList.update (module_path m, version m)
                 \<lparr>status = Ok, alternative_module_path = None, last_attempt_time = now\<rparr>
                 (ModuleVersionStates db)\<rparr>)"
  using assms by (simp add: InsertModule_def Let_def)

lemma InsertModule_tables:
  assumes "InsertModule vk sp san now (Some m) db = (None, db')"
  obtains key where "vk (version m) = Some key"
    "Modules db' = AList.update (module_path m, version m)
                 \<lparr>row_commit_time = commit_time m, row_has_module_file = has_module_file m,
                  sort_version = key, series_path = sp (module_path m)\<rparr> (Modules db)"
    "Packages db' = AList.update (module_path m, version m)
                 (map (sanitizePackage san) (packages m)) (Packages db)"
    "Directories db' = AList.update (module_path m, version m) (directories m) (Directories db)"
    "SearchDocuments db' =
       (if newerAlternative vk db (module_path m) (version m) key
        then SearchDocuments db
        else publish m (map (sanitizePackage san) (packages m)) (SearchDocuments db))"
proof -
  from assms obtain key where "vk (version m) = Some key"
    and "db' = db\<lparr>Modules := AList.update (module_path m, version m)
                 \<lparr>row_commit_time = commit_time m, row_has_module_file = has_module_file m,
                  sort_version = key, series_path = sp (module_path m)\<rparr> (Modules db),
              Packages := AList.update (module_path m, version m)
                 (map (sanitizePackage san) (packages m)) (Packages db),
              Directories := AList.update (module_path m, version m) (directories m) (Directories db),
              Licenses := AList.update (module_path m, version m) (licenses m) (Licenses db),
              SearchDocuments :=
                (if newerAlternative vk db (module_path m) (version m) key
                 then SearchDocuments db
                 else publish m (map (sanitizePackage san) (packages m)) (SearchDocuments db)),
              ModuleVersionStates := AList.update (module_path m, version m)
                 \<lparr>status = Ok, alternative_module_path = None, last_attempt_time = now\<rparr>
                 (ModuleVersionStates db)\<rparr>"
    by (rule InsertModule_Some_None)
  then show thesis by (intro that) simp_all
qed


lemma exampleModule_valid:
  "module_path (exampleModule ''v1.0.0'') \<noteq> []" "version (exampleModule ''v1.0.0'') \<noteq> []"
  "commit_time (exampleModule ''v1.0.0'') \<noteq> 0"
  "exampleVersionKey (version (exampleModule ''v1.0.0'')) = Some ''1,0,0''"
  by (simp_all add: exampleModule_def exampleVersionKey_def)

text \<open>
  C7. For a nil module, and for every module whose module path is empty, whose version is
  empty or whose commit time is the zero time, \<^verbatim>\<open>InsertModule\<close> returns the invalid-input
  error \<^verbatim>\<open>DBModuleInsertInvalid\<close> and leaves the store as it was. The rejection is permanent:
  it depends neither on the store nor on the time, and trying again gives the same error.
\<close>

theorem InsertModule_rejects_invalid:
  assumes "mo = None \<or> (\<exists>m. mo = Some m \<and> (module_path m = [] \<or> version m = [] \<or> commit_time m = 0))"
  shows "InsertModule vk sp san now mo db = (Some DBModuleInsertInvalid, db)
     \<and> InsertModule vk sp san now' mo (snd (InsertModule vk sp san now mo db))
         = (Some DBModuleInsertInvalid, db)"
  using assms by (auto simp: InsertModule_def)

theorem InsertModule_rejects_invalid_witness:
  "InsertModule exampleVersionKey id id 5 None alternativeDB
     = (Some DBModuleInsertInvalid, alternativeDB)
   \<and> InsertModule exampleVersionKey id id 5
       (Some ((exampleModule ''v1.0.0'')\<lparr>commit_time := 0\<rparr>)) alternativeDB
     = (Some DBModuleInsertInvalid, alternativeDB)
   \<and> InsertModule exampleVersionKey id id 5 (Some (exampleModule [])) alternativeDB
     = (Some DBModuleInsertInvalid, alternativeDB)"
proof -
  let ?m = "(exampleModule ''v1.0.0'')\<lparr>commit_time := 0\<rparr>"
  have a: "(None :: Module option) = None
      \<or> (\<exists>m. None = Some m \<and> (module_path m = [] \<or> version m = [] \<or> commit_time m = 0))"
    by simp
  have b: "Some ?m = None
      \<or> (\<exists>m. Some ?m = Some m \<and> (module_path m = [] \<or> version m = [] \<or> commit_time m = 0))"
    by simp
  have c: "Some (exampleModule []) = None
      \<or> (\<exists>m. Some (exampleModule []) = Some m
              \<and> (module_path m = [] \<or> version m = [] \<or> commit_time m = 0))"
    by (simp add: exampleModule_def)
  from InsertModule_rejects_invalid [OF a, of exampleVersionKey id id 5 alternativeDB 5]
    InsertModule_rejects_invalid [OF b, of exampleVersionKey id id 5 alternativeDB 5]
    InsertModule_rejects_invalid [OF c, of exampleVersionKey id id 5 alternativeDB 5]
  show ?thesis by (intro conjI) (erule conjunct1)+
qed

text \<open>
  C2. After a successful \<^verbatim>\<open>InsertModule\<close> of a module (which then has a module path, a
  version and a commit time), a second \<^verbatim>\<open>InsertModule\<close> of the same module succeeds as well,
  at whatever time, and \<^verbatim>\<open>GetModuleInfo\<close>, \<^verbatim>\<open>GetPackage\<close> and \<^verbatim>\<open>GetDirectory\<close> return after
  the second insert what they returned after the first, for every key; for the module's own
  key \<^verbatim>\<open>GetModuleInfo\<close> returns its commit time and its module-file flag.
\<close>

theorem InsertModule_twice:
  assumes "InsertModule vk sp san now (Some m) db = (None, db1)"
  shows "\<exists>db2. InsertModule vk sp san now' (Some m) db1 = (None, db2)
      \<and> GetModuleInfo db2 = GetModuleInfo db1
      \<and> GetPackage db2 = GetPackage db1
      \<and> GetDirectory db2 = GetDirectory db1
      \<and> (\<exists>row. GetModuleInfo db2 (module_path m) (version m) = Inr row
            \<and> row_commit_time row = commit_time m
            \<and> row_has_module_file row = has_module_file m)"
proof -
  from assms obtain key where v: "module_path m \<noteq> []" "version m \<noteq> []" "commit_time m \<noteq> 0"
    "vk (version m) = Some key"
    by (rule InsertModule_Some_None)
  from assms obtain key1 where k1: "vk (version m) = Some key1"
    and M1: "Modules db1 = AList.update (module_path m, version m)
                 \<lparr>row_commit_time = commit_time m, row_has_module_file = has_module_file m,
                  sort_version = key1, series_path = sp (module_path m)\<rparr> (Modules db)"
    and P1: "Packages db1 = AList.update (module_path m, version m)
                 (map (sanitizePackage san) (packages m)) (Packages db)"
    and D1: "Directories db1 = AList.update (module_path m, version m) (directories m) (Directories db)"
    by (rule InsertModule_tables)
  obtain db2 where second: "InsertModule vk sp san now' (Some m) db1 = (None, db2)"
    using InsertModule_valid [where vk = vk and m = m and key = key, OF v] by simp
  from second obtain key2 where k2: "vk (version m) = Some key2"
    and M2: "Modules db2 = AList.update (module_path m, version m)
                 \<lparr>row_commit_time = commit_time m, row_has_module_file = has_module_file m,
                  sort_version = key2, series_path = sp (module_path m)\<rparr> (Modules db1)"
    and P2: "Packages db2 = AList.update (module_path m, version m)
                 (map (sanitizePackage san) (packages m)) (Packages db1)"
    and D2: "Directories db2 = AList.update (module_path m, version m) (directories m) (Directories db1)"
    by (rule InsertModule_tables)
  from k1 k2 have kk: "key2 = key1" by simp
  have b: "GetModuleInfo db2 = GetModuleInfo db1"
    by (rule ext)+ (simp add: GetModuleInfo_def M2 M1 kk update_conv')
  have c: "GetPackage db2 = GetPackage db1"
    by (rule ext)+ (simp add: GetPackage_def P2 P1 update_conv')
  have d: "GetDirectory db2 = GetDirectory db1"
    by (rule ext)+ (simp add: GetDirectory_def D2 D1 update_conv')
  have e: "\<exists>row. GetModuleInfo db2 (module_path m) (version m) = Inr row
            \<and> row_commit_time row = commit_time m
            \<and> row_has_module_file row = has_module_file m"
    by (simp add: GetModuleInfo_def M2 update_conv')
  from second b c d e show ?thesis by blast
qed

theorem InsertModule_twice_witness:
  "\<exists>db1 db2. InsertModule exampleVersionKey id id 5 (Some (exampleModule ''v1.0.0'')) emptyDB = (None, db1)
      \<and> InsertModule exampleVersionKey id id 6 (Some (exampleModule ''v1.0.0'')) db1 = (None, db2)
      \<and> GetModuleInfo db2 = GetModuleInfo db1
      \<and> GetPackage db2 = GetPackage db1
      \<and> GetDirectory db2 = GetDirectory db1
      \<and> GetModuleInfo db1 ''example.com/Mod'' ''v1.0.0''
          = Inr \<lparr>row_commit_time = 1573000000, row_has_module_file = True,
                 sort_version = ''1,0,0'', series_path = ''example.com/Mod''\<rparr>"
proof -
  obtain db1 where
    f: "InsertModule exampleVersionKey id id 5 (Some (exampleModule ''v1.0.0'')) emptyDB = (None, db1)"
    using InsertModule_valid [where vk = exampleVersionKey and m = "exampleModule ''v1.0.0''"
        and key = "''1,0,0''", OF exampleModule_valid] by simp
  have g: "GetModuleInfo db1 ''example.com/Mod'' ''v1.0.0''
          = Inr \<lparr>row_commit_time = 1573000000, row_has_module_file = True,
                 sort_version = ''1,0,0'', series_path = ''example.com/Mod''\<rparr>"
    using f by (auto simp: InsertModule_def exampleModule_def exampleVersionKey_def emptyDB_def
        Let_def GetModuleInfo_def)
  from InsertModule_twice [OF f, of 6] obtain db2 where
    s1: "InsertModule exampleVersionKey id id 6 (Some (exampleModule ''v1.0.0'')) db1 = (None, db2)"
    and s2: "GetModuleInfo db2 = GetModuleInfo db1"
    and s3: "GetPackage db2 = GetPackage db1"
    and s4: "GetDirectory db2 = GetDirectory db1"
    by (elim exE conjE) (rule that, assumption+)
  from f s1 s2 s3 s4 g show ?thesis by (intro exI conjI)
qed



end
